theory Spec2Isabelle
  imports Complex_Main
begin

section \<open>Strings\<close>

text \<open>
  Python strings are sequences of code points. The model uses \<^typ>\<open>string\<close>, whose
  characters are the 256 code points of Latin-1; every literal of the modelled code
  (prompts, messages, the token \<^verbatim>\<open>oui\<close>) lies in that range. Code points outside
  ASCII are written \<open>CHR 0x..\<close>.
\<close>

definition isspace :: "char \<Rightarrow> bool" where
  \<comment> \<open>the characters \<^verbatim>\<open>str.strip()\<close> removes: \<^verbatim>\<open>\t \n \v \f \r\<close>, 0x1C..0x1F, space, 0x85, 0xA0\<close>
  "isspace c =
     (let n = (of_char c :: nat)
      in (9 \<le> n \<and> n \<le> 13) \<or> (28 \<le> n \<and> n \<le> 32) \<or> n = 133 \<or> n = 160)"

definition strip :: "string \<Rightarrow> string" where
  "strip s = rev (dropWhile isspace (rev (dropWhile isspace s)))"

definition lower_char :: "char \<Rightarrow> char" where
  \<comment> \<open>\<^verbatim>\<open>A..Z\<close> and the upper-case letters 0xC0..0xDE of Latin-1 (0xD7 is the
      multiplication sign) move up by 32; every other character is unchanged\<close>
  "lower_char c =
     (let n = (of_char c :: nat)
      in if (65 \<le> n \<and> n \<le> 90) \<or> (192 \<le> n \<and> n \<le> 222 \<and> n \<noteq> 215)
         then char_of (n + 32) else c)"

definition lower :: "string \<Rightarrow> string" where
  "lower s = map lower_char s"

fun startswith :: "string \<Rightarrow> string \<Rightarrow> bool" where
  "startswith s [] = True"
| "startswith [] (p # ps) = False"
| "startswith (c # cs) (p # ps) = (c = p \<and> startswith cs ps)"

fun contains :: "string \<Rightarrow> string \<Rightarrow> bool" where
  \<comment> \<open>\<open>contains s sub\<close> is Python's \<^verbatim>\<open>sub in s\<close>\<close>
  "contains [] sub = (sub = [])"
| "contains (c # cs) sub = (startswith (c # cs) sub \<or> contains cs sub)"

fun join :: "string \<Rightarrow> string list \<Rightarrow> string" where
  \<comment> \<open>\<open>join sep xs\<close> is Python's \<^verbatim>\<open>sep.join(xs)\<close>\<close>
  "join sep [] = []"
| "join sep [x] = x"
| "join sep (x # y # ys) = x @ sep @ join sep (y # ys)"

definition NL :: string where
  "NL = [CHR 0x0A]"

section \<open>Data model\<close>

record document =
  page_content :: string
  metadata :: "(string \<times> string) list"

text \<open>
  Exceptions are values: a constructor is the class, its argument the one argument the
  exception was raised with. Every exception of the model is a subclass of Python's
  \<^verbatim>\<open>Exception\<close>, so every \<^verbatim>\<open>except Exception\<close> clause catches it. \<open>class_name\<close> is the name of
  the class and \<open>str\<close> the text \<^verbatim>\<open>str(e)\<close>: the argument itself, except for a
  \<^verbatim>\<open>KeyError\<close>, which renders its key as \<^verbatim>\<open>repr\<close> does.
\<close>

datatype exn =
    Exception string
  | ValueError string
  | TypeError string
  | IndexError string
  | KeyError string
  | ZeroDivisionError string
  | GraphRecursionError string

fun class_name :: "exn \<Rightarrow> string" where
  "class_name (Exception m) = ''Exception''"
| "class_name (ValueError m) = ''ValueError''"
| "class_name (TypeError m) = ''TypeError''"
| "class_name (IndexError m) = ''IndexError''"
| "class_name (KeyError m) = ''KeyError''"
| "class_name (ZeroDivisionError m) = ''ZeroDivisionError''"
| "class_name (GraphRecursionError m) = ''GraphRecursionError''"

definition hex_digit :: "nat \<Rightarrow> char" where
  "hex_digit n = (if n < 10 then char_of (48 + n) else char_of (87 + n))"

definition isprintable :: "char \<Rightarrow> bool" where
  \<comment> \<open>\<^verbatim>\<open>str.isprintable\<close> on Latin-1: not the control characters 0x00..0x1F and
      0x7F..0x9F, the no-break space 0xA0 or the soft hyphen 0xAD\<close>
  "isprintable c =
     (let n = (of_char c :: nat)
      in (32 \<le> n \<and> n < 127) \<or> (161 \<le> n \<and> n \<noteq> 173))"

definition repr_char :: "char \<Rightarrow> char \<Rightarrow> string" where
  \<comment> \<open>one character inside the quotes \<open>quote\<close> of \<^verbatim>\<open>repr\<close>\<close>
  "repr_char quote c =
     (let n = (of_char c :: nat)
      in if c = quote \<or> c = CHR 0x5C then [CHR 0x5C, c]
         else if c = CHR 0x09 then [CHR 0x5C, CHR ''t'']
         else if c = CHR 0x0A then [CHR 0x5C, CHR ''n'']
         else if c = CHR 0x0D then [CHR 0x5C, CHR ''r'']
         else if \<not> isprintable c
           then [CHR 0x5C, CHR ''x'', hex_digit (n div 16), hex_digit (n mod 16)]
         else [c])"

definition repr :: "string \<Rightarrow> string" where
  \<comment> \<open>\<^verbatim>\<open>repr\<close> of a string: in single quotes, or in double quotes when the string has a
      single quote and no double quote\<close>
  "repr s =
     (let quote = (if CHR 0x27 \<in> set s \<and> CHR 0x22 \<notin> set s then CHR 0x22 else CHR 0x27)
      in quote # concat (map (repr_char quote) s) @ [quote])"

fun str :: "exn \<Rightarrow> string" where
  "str (Exception m) = m"
| "str (ValueError m) = m"
| "str (TypeError m) = m"
| "str (IndexError m) = m"
| "str (KeyError m) = repr m"
| "str (ZeroDivisionError m) = m"
| "str (GraphRecursionError m) = m"

text \<open>
  Modelled from the spec: the state class \<^verbatim>\<open>RAGState\<close> of module \<^verbatim>\<open>src.state.rag_state\<close>,
  which the sources import and do not hold. It has the question and two optional fields,
  the retrieved documents and the answer. The nodes read it by attribute, and a run starts
  it from the question alone.
\<close>

record RAGState =
  question :: string
  retrieved_docs :: "document list option"
  answer :: "string option"

text \<open>
  The collaborators of a turn. A chat message is a pair of a role and a text; the model
  returns the content of its response or raises. The agent built by
  \<^verbatim>\<open>create_react_agent\<close> is a library object: it maps the question to the contents of the
  messages of its result, or raises. \<open>agent_cached\<close> says whether \<^verbatim>\<open>self._agent\<close> is
  already set when the turn begins; \<open>build_agent\<close> is the outcome of \<^verbatim>\<open>_build_agent\<close>
  when it is not.
\<close>

type_synonym message = "string \<times> string"

record env =
  retriever_invoke :: "string \<Rightarrow> exn + document list"
  llm_invoke :: "message list \<Rightarrow> exn + string"
  agent_cached :: bool
  build_agent :: "exn option"
  agent_invoke :: "string \<Rightarrow> exn + string list"

text \<open>The calls a turn makes to its collaborators, and the graph nodes it enters, in order.\<close>

datatype event =
    Node string
  | RetrieverInvoke string
  | LLMInvoke "message list"
  | AgentBuild
  | AgentInvoke string

type_synonym 'a io = "(exn + 'a) \<times> event list"

section \<open>The nodes of \<^verbatim>\<open>RAGNodes\<close>\<close>

definition retrieve_docs :: "env \<Rightarrow> RAGState \<Rightarrow> RAGState io" where
  \<comment> \<open>a node returns the dictionary of the fields it updates; the model returns the state
      with these fields updated\<close>
  "retrieve_docs env state =
     (let q = question state
      in case retriever_invoke env q of
           Inr docs \<Rightarrow> (Inr (state\<lparr>retrieved_docs := Some docs\<rparr>), [RetrieverInvoke q])
         | Inl e \<Rightarrow> (Inr (state\<lparr>retrieved_docs := Some []\<rparr>), [RetrieverInvoke q]))"

definition agent_failure :: string where
  "agent_failure = ''Impossible de g'' @ [CHR 0xE9] @ ''n'' @ [CHR 0xE9] @ ''rer une r''
     @ [CHR 0xE9] @ ''ponse.''"

definition agent_answer :: "exn + string list \<Rightarrow> string" where
  \<comment> \<open>the body of the \<^verbatim>\<open>try\<close> of \<^verbatim>\<open>generate_answer\<close> and its handler;
      \<^verbatim>\<open>result["messages"][-1]\<close> raises IndexError on an empty list, inside the \<^verbatim>\<open>try\<close>\<close>
  "agent_answer r =
     (case r of
        Inl e \<Rightarrow> ''Erreur de l'agent : '' @ str e
      | Inr msgs \<Rightarrow>
          if msgs = [] then ''Erreur de l'agent : '' @ str (IndexError ''list index out of range'')
          else if last msgs = [] then agent_failure
          else last msgs)"

definition generate_answer :: "env \<Rightarrow> RAGState \<Rightarrow> RAGState io" where
  "generate_answer env state =
     (let q = question state;
          reply = (Inr (state\<lparr>answer := Some (agent_answer (agent_invoke env q))\<rparr>), [AgentInvoke q])
      in if agent_cached env then reply
         else case build_agent env of
                Some e \<Rightarrow> (Inl e, [AgentBuild])
              | None \<Rightarrow> (fst reply, AgentBuild # snd reply))"

section \<open>The decision and the direct answer of \<^verbatim>\<open>GraphBuilder\<close>\<close>

definition judge_system :: string where
  "judge_system =
     ''Vous '' @ [CHR 0xEA] @ ''tes un arbitre expert. Votre r'' @ [CHR 0xF4] @ ''le est de d''
     @ [CHR 0xE9] @ ''terminer si les documents fournis contiennent suffisamment d'informations pour r''
     @ [CHR 0xE9] @ ''pondre de mani'' @ [CHR 0xE8] @ ''re compl'' @ [CHR 0xE8] @ ''te ''
     @ [CHR 0xE0] @ '' la question de l'utilisateur. ''
     @ ''R'' @ [CHR 0xE9] @ ''pondez uniquement par 'oui' si les documents sont suffisants, ''
     @ ''et 'non' s'ils ne le sont pas ou si des informations externes sont n''
     @ [CHR 0xE9] @ ''cessaires.''"

definition judge_prompt :: "string \<Rightarrow> string \<Rightarrow> message list" where
  "judge_prompt q context =
     [(''system'', judge_system),
      (''user'', ''Question: '' @ q @ NL @ NL @ ''Documents:'' @ NL @ context)]"

definition decide_next_step :: "env \<Rightarrow> RAGState \<Rightarrow> string io" where
  "decide_next_step env state =
     (let q = question state
      in case retrieved_docs state of
           None \<Rightarrow> (Inr ''agent_search'', [])
         | Some [] \<Rightarrow> (Inr ''agent_search'', [])
         | Some (d # ds) \<Rightarrow>
             (let context = join (NL @ NL @ ''---'' @ NL @ NL) (map page_content (d # ds));
                  prompt = judge_prompt q context
              in case llm_invoke env prompt of
                   Inl e \<Rightarrow> (Inl e, [LLMInvoke prompt])
                 | Inr content \<Rightarrow>
                     (let decision = lower (strip content)
                      in if contains decision ''oui''
                         then (Inr ''generate_direct'', [LLMInvoke prompt])
                         else (Inr ''agent_search'', [LLMInvoke prompt]))))"

definition direct_prompt :: "string \<Rightarrow> string \<Rightarrow> message list" where
  "direct_prompt context q =
     [(''system'',
       ''Vous '' @ [CHR 0xEA] @ ''tes un assistant expert en RAG. R'' @ [CHR 0xE9]
       @ ''pondez '' @ [CHR 0xE0] @ '' la question en vous basant uniquement sur le contexte suivant:''
       @ NL @ NL @ context),
      (''user'', ''Question: '' @ q)]"

definition generate_direct_answer :: "env \<Rightarrow> RAGState \<Rightarrow> RAGState io" where
  "generate_direct_answer env state =
     (let q = question state
      in case retrieved_docs state of
           None \<Rightarrow>
             (Inl (TypeError ([CHR 0x27] @ ''NoneType'' @ [CHR 0x27] @ '' object is not iterable'')), [])
         | Some docs \<Rightarrow>
             (let context = join (NL @ NL) (map page_content docs);
                  prompt = direct_prompt context q
              in case llm_invoke env prompt of
                   Inl e \<Rightarrow> (Inl e, [LLMInvoke prompt])
                 | Inr content \<Rightarrow> (Inr (state\<lparr>answer := Some content\<rparr>), [LLMInvoke prompt])))"

section \<open>The graph of \<^verbatim>\<open>GraphBuilder.build\<close> and its execution\<close>

text \<open>
  \<^verbatim>\<open>build\<close> registers three nodes by name, makes \<^verbatim>\<open>retriever\<close> the entry point, routes it
  by the key that \<^verbatim>\<open>_decide_next_step\<close> returns, and sends both answering nodes to
  \<^verbatim>\<open>END\<close>. The graph is kept as data, and \<open>run_graph\<close> executes any such graph: it runs the
  current node, merges its update, follows the node's edge and goes on until it reaches
  \<^verbatim>\<open>END\<close>. An exception raised by a node or by a routing function leaves the execution.
  The number of steps is bounded by the recursion limit of the graph library (25 by
  default), past which the execution raises.
\<close>

datatype edge =
    Edge string
  | ConditionalEdges "env \<Rightarrow> RAGState \<Rightarrow> string io" "(string \<times> string) list"

record graph =
  nodes :: "(string \<times> (env \<Rightarrow> RAGState \<Rightarrow> RAGState io)) list"
  entry_point :: string
  edges :: "(string \<times> edge) list"

definition END :: string where
  "END = ''__end__''"

definition build :: graph where
  "build =
     \<lparr> nodes = [(''retriever'', retrieve_docs),
                (''generate_direct'', generate_direct_answer),
                (''agent_search'', generate_answer)],
       entry_point = ''retriever'',
       edges = [(''retriever'',
                 ConditionalEdges decide_next_step
                   [(''generate_direct'', ''generate_direct''),
                    (''agent_search'', ''agent_search'')]),
                (''generate_direct'', Edge END),
                (''agent_search'', Edge END)] \<rparr>"

definition after :: "event list \<Rightarrow> 'a io \<Rightarrow> 'a io" where
  \<comment> \<open>the outcome of a computation that follows the events \<open>evs\<close>\<close>
  "after evs r = (fst r, evs @ snd r)"

fun run_graph :: "graph \<Rightarrow> env \<Rightarrow> nat \<Rightarrow> string \<Rightarrow> RAGState \<Rightarrow> RAGState io" where
  "run_graph g env 0 n st =
     (if n = END then (Inr st, [])
      else (Inl (GraphRecursionError ''Recursion limit reached''), []))"
| "run_graph g env (Suc k) n st =
     (if n = END then (Inr st, [])
      else case map_of (nodes g) n of
             None \<Rightarrow> (Inl (KeyError n), [])
           | Some f \<Rightarrow>
               (case f env st of
                  (Inl e, evs) \<Rightarrow> (Inl e, Node n # evs)
                | (Inr st', evs) \<Rightarrow>
                    (case map_of (edges g) n of
                       None \<Rightarrow> (Inr st', Node n # evs)
                     | Some (Edge m) \<Rightarrow> after (Node n # evs) (run_graph g env k m st')
                     | Some (ConditionalEdges path mapping) \<Rightarrow>
                         (case path env st' of
                            (Inl e, evs') \<Rightarrow> (Inl e, Node n # evs @ evs')
                          | (Inr key, evs') \<Rightarrow>
                              (case map_of mapping key of
                                 None \<Rightarrow> (Inl (KeyError key), Node n # evs @ evs')
                               | Some m \<Rightarrow>
                                   after (Node n # evs @ evs') (run_graph g env k m st'))))))"

definition recursion_limit :: nat where
  "recursion_limit = 25"

definition invoke :: "graph \<Rightarrow> env \<Rightarrow> RAGState \<Rightarrow> RAGState io" where
  "invoke g env st = run_graph g env recursion_limit (entry_point g) st"

text \<open>
  \<^verbatim>\<open>run\<close> builds the graph if needed and invokes it on \<^verbatim>\<open>{"question": question}\<close> under the
  thread's configuration. The checkpointer restores the state the thread had, if any;
  \<open>saved\<close> is that state. What the checkpointer writes is not modelled.
\<close>

definition initial_state :: "RAGState option \<Rightarrow> string \<Rightarrow> RAGState" where
  "initial_state saved q =
     (case saved of
        None \<Rightarrow> \<lparr> question = q, retrieved_docs = None, answer = None \<rparr>
      | Some st \<Rightarrow> st\<lparr>question := q\<rparr>)"

definition run :: "env \<Rightarrow> RAGState option \<Rightarrow> string \<Rightarrow> RAGState io" where
  "run env saved q = invoke build env (initial_state saved q)"

text \<open>
  The chat handler of the front end, once the system is built. An empty input is no
  question and nothing happens. A question that starts with \<^verbatim>\<open>/test-retriever \<close> tests the
  retriever and never calls \<^verbatim>\<open>run\<close>; this branch is the outcome \<open>RetrieverTest\<close>, and what
  it shows is not modelled. For every other question the handler shows the answer of the
  run, or an error box with the exception when the run raises.
\<close>

datatype display = NoQuestion | RetrieverTest | Markdown string | ErrorBox string exn

definition missing_answer :: string where
  "missing_answer = ''D'' @ [CHR 0xE9] @ ''sol'' @ [CHR 0xE9] @ '', une erreur est survenue lors de la g''
     @ [CHR 0xE9] @ ''n'' @ [CHR 0xE9] @ ''ration de la r'' @ [CHR 0xE9] @ ''ponse.''"

definition technical_error :: string where
  "technical_error = ''D'' @ [CHR 0xE9] @ ''sol'' @ [CHR 0xE9]
     @ '', une erreur technique est survenue. Veuillez v'' @ [CHR 0xE9] @ ''rifier les logs.''"

definition chat_turn :: "env \<Rightarrow> RAGState option \<Rightarrow> string \<Rightarrow> display" where
  "chat_turn env saved q =
     (if q = [] then NoQuestion
      else if startswith q ''/test-retriever '' then RetrieverTest
      else case fst (run env saved q) of
             Inr result \<Rightarrow> Markdown (case answer result of Some a \<Rightarrow> a | None \<Rightarrow> missing_answer)
           | Inl e \<Rightarrow> ErrorBox technical_error e)"

definition chat_question :: "string \<Rightarrow> bool" where
  \<comment> \<open>the inputs that the chat handler passes to \<^verbatim>\<open>run\<close>\<close>
  "chat_question q = (q \<noteq> [] \<and> \<not> startswith q ''/test-retriever '')"

text \<open>The names of the graph nodes a turn entered, in order.\<close>

fun nodes_run :: "event list \<Rightarrow> string list" where
  "nodes_run [] = []"
| "nodes_run (Node n # evs) = n # nodes_run evs"
| "nodes_run (_ # evs) = nodes_run evs"

fun llm_calls :: "event list \<Rightarrow> message list list" where
  "llm_calls [] = []"
| "llm_calls (LLMInvoke p # evs) = p # llm_calls evs"
| "llm_calls (_ # evs) = llm_calls evs"

text \<open>The state a turn holds once the retrieval node has run.\<close>

definition retrieved :: "env \<Rightarrow> RAGState \<Rightarrow> RAGState" where
  "retrieved env st =
     st\<lparr>retrieved_docs :=
          Some (case retriever_invoke env (question st) of Inr docs \<Rightarrow> docs | Inl e \<Rightarrow> [])\<rparr>"

text \<open>The three letters of the affirmative token, each in either case.\<close>

definition oui_any_case :: "string \<Rightarrow> bool" where
  "oui_any_case occ =
     (case occ of
        [a, b, c] \<Rightarrow> (a = CHR ''o'' \<or> a = CHR ''O'') \<and> (b = CHR ''u'' \<or> b = CHR ''U'')
                     \<and> (c = CHR ''i'' \<or> c = CHR ''I'')
      | _ \<Rightarrow> False)"

section \<open>The hybrid retriever of \<^verbatim>\<open>VectorStore\<close>\<close>

text \<open>
  \<^verbatim>\<open>create_vectorstore\<close> builds a dense index and then a sparse index over the documents,
  both asked for 10 candidates, hands them in the order sparse, dense to an ensemble
  retriever with the weights 0.5 and 0.5, and wraps the ensemble in a compression retriever
  whose compressor is a cross-encoder reranker with \<^verbatim>\<open>top_n=3\<close>. The indices, the fusion and
  the reranker are library components: the sources configure and compose them and hold
  none of their code. Building an index happens inside \<^verbatim>\<open>create_vectorstore\<close> and can raise
  there: \<open>faiss_build\<close> and \<open>bm25_build\<close> give the exception that building the index over
  the documents raises, if any. The lookups of the built indices are \<open>similarity_search\<close>
  and \<open>bm25_search\<close>. A candidate is a document with its score; scores are exact rationals.
\<close>

type_synonym scored = "document \<times> rat"

record indices =
  faiss_build :: "document list \<Rightarrow> exn option"
  bm25_build :: "document list \<Rightarrow> exn option"
  similarity_search :: "document list \<Rightarrow> nat \<Rightarrow> string \<Rightarrow> exn + scored list"
  bm25_search :: "document list \<Rightarrow> nat \<Rightarrow> string \<Rightarrow> exn + scored list"
  cross_encoder :: "string \<Rightarrow> document \<Rightarrow> rat"

definition fused_score :: "rat \<Rightarrow> rat \<Rightarrow> scored list \<Rightarrow> scored list \<Rightarrow> document \<Rightarrow> rat" where
  \<comment> \<open>Modelled from the spec: the fused score of a candidate, for the fusion of the ensemble
      retriever, which is library code. A document of both lists accumulates the weighted
      sum of its scores, a document of one list keeps its single weighted score.\<close>
  "fused_score w1 w2 xs ys d =
     (case (map_of xs d, map_of ys d) of
        (Some a, Some b) \<Rightarrow> w1 * a + w2 * b
      | (Some a, None) \<Rightarrow> w1 * a
      | (None, Some b) \<Rightarrow> w2 * b
      | (None, None) \<Rightarrow> 0)"

fun unique :: "'a list \<Rightarrow> 'a list \<Rightarrow> 'a list" where
  \<comment> \<open>the elements of a list that are not in \<open>seen\<close>, each at its first occurrence\<close>
  "unique seen [] = []"
| "unique seen (x # xs) = (if x \<in> set seen then unique seen xs else x # unique (x # seen) xs)"

definition fusion :: "rat \<Rightarrow> rat \<Rightarrow> scored list \<Rightarrow> scored list \<Rightarrow> scored list" where
  \<comment> \<open>Modelled from the spec: the fusion step of the ensemble retriever, which is library
      code. One deduplicated candidate list, ranked by descending fused score, ties kept in
      their original rank order (the sort is stable).\<close>
  "fusion w1 w2 xs ys =
     sort_key (\<lambda>c. - snd c)
       (map (\<lambda>d. (d, fused_score w1 w2 xs ys d)) (unique [] (map fst xs @ map fst ys)))"

definition rerank :: "(string \<Rightarrow> document \<Rightarrow> rat) \<Rightarrow> nat \<Rightarrow> string \<Rightarrow> document list \<Rightarrow> document list" where
  \<comment> \<open>Modelled from the spec: the cross-encoder reranker, which is library code. It scores
      every pair of the query and a candidate, sorts the candidates by this score alone,
      descending, and keeps the first \<open>top_n\<close>.\<close>
  "rerank score top_n q cands = take top_n (sort_key (\<lambda>d. - score q d) cands)"

definition ensemble_retriever ::
  "(string \<Rightarrow> exn + scored list) \<Rightarrow> (string \<Rightarrow> exn + scored list) \<Rightarrow> rat \<times> rat
     \<Rightarrow> string \<Rightarrow> exn + document list" where
  \<comment> \<open>the ensemble asks its retrievers in the order given; \<^verbatim>\<open>create_vectorstore\<close> puts no
      handler around either, so what one of them raises leaves the ensemble\<close>
  "ensemble_retriever r1 r2 weights q =
     (case r1 q of
        Inl e \<Rightarrow> Inl e
      | Inr xs \<Rightarrow>
          (case r2 q of
             Inl e \<Rightarrow> Inl e
           | Inr ys \<Rightarrow> Inr (map fst (fusion (fst weights) (snd weights) xs ys))))"

definition compression_retriever ::
  "(string \<Rightarrow> document list \<Rightarrow> document list) \<Rightarrow> (string \<Rightarrow> exn + document list)
     \<Rightarrow> string \<Rightarrow> exn + document list" where
  "compression_retriever compressor base q =
     (case base q of Inl e \<Rightarrow> Inl e | Inr docs \<Rightarrow> Inr (compressor q docs))"

record VectorStore =
  retriever :: "(string \<Rightarrow> exn + document list) option"

definition VectorStore_init :: VectorStore where
  \<comment> \<open>\<^verbatim>\<open>__init__\<close>: no retriever yet\<close>
  "VectorStore_init = \<lparr> retriever = None \<rparr>"

definition create_vectorstore :: "indices \<Rightarrow> VectorStore \<Rightarrow> document list \<Rightarrow> exn + VectorStore" where
  \<comment> \<open>the method returns the store with its retriever set, or raises what building an
      index raises, the dense index first\<close>
  "create_vectorstore ix self documents =
     (case faiss_build ix documents of
        Some e \<Rightarrow> Inl e
      | None \<Rightarrow>
          (case bm25_build ix documents of
             Some e \<Rightarrow> Inl e
           | None \<Rightarrow>
               (let faiss_retriever = similarity_search ix documents 10;
                    bm25_retriever = bm25_search ix documents 10;
                    ensemble = ensemble_retriever bm25_retriever faiss_retriever (1 / 2, 1 / 2);
                    reranker = rerank (cross_encoder ix) 3
                in Inr (self\<lparr>retriever := Some (compression_retriever reranker ensemble)\<rparr>))))"

definition store_after :: "indices \<Rightarrow> VectorStore \<Rightarrow> document list \<Rightarrow> VectorStore" where
  \<comment> \<open>the store object after the call: the retriever is assigned last, so a call that
      raises leaves the store as it was\<close>
  "store_after ix self documents =
     (case create_vectorstore ix self documents of Inl e \<Rightarrow> self | Inr vs \<Rightarrow> vs)"

definition not_initialized :: exn where
  "not_initialized = ValueError ''Vector store not initialized. Call create_vectorstore first.''"

definition get_retriever :: "VectorStore \<Rightarrow> exn + (string \<Rightarrow> exn + document list)" where
  "get_retriever vs = (case retriever vs of None \<Rightarrow> Inl not_initialized | Some r \<Rightarrow> Inr r)"

definition retrieve :: "VectorStore \<Rightarrow> string \<Rightarrow> exn + document list" where
  "retrieve vs q = (case retriever vs of None \<Rightarrow> Inl not_initialized | Some r \<Rightarrow> r q)"

text \<open>
  \<^verbatim>\<open>build_rag_system\<close> creates the vector store from the documents and gives its retriever
  to the graph builder: the retriever of the turn is the retriever of the store. For a
  store that has been built, this retriever answers as \<open>retrieve\<close> does.
\<close>

definition rag_env :: "VectorStore \<Rightarrow> env \<Rightarrow> env" where
  "rag_env vs env = env\<lparr>retriever_invoke := retrieve vs\<rparr>"

section \<open>Concrete inputs\<close>

definition doc_paris :: document where
  "doc_paris = \<lparr> page_content = ''Paris is the capital of France.'',
                   metadata = [(''source'', ''Texte brut'')] \<rparr>"

definition doc_lyon :: document where
  "doc_lyon = \<lparr> page_content = ''Lyon is a city of France.'',
                  metadata = [(''source'', ''Texte brut'')] \<rparr>"

definition doc_nice :: document where
  "doc_nice = \<lparr> page_content = ''Nice lies on the coast.'',
                  metadata = [(''source'', ''guide.pdf'')] \<rparr>"

definition doc_lille :: document where
  "doc_lille = \<lparr> page_content = ''Lille is in the north.'',
                   metadata = [(''source'', ''guide.pdf'')] \<rparr>"

definition corpus :: "document list" where
  "corpus = [doc_paris, doc_lyon, doc_nice, doc_lille]"

definition q_paris :: string where
  "q_paris = ''What is the capital of France?''"

definition state_paris :: RAGState where
  "state_paris = \<lparr> question = q_paris, retrieved_docs = Some [doc_paris], answer = None \<rparr>"

definition state_empty :: RAGState where
  "state_empty = \<lparr> question = ''Quel temps fait-il ?'', retrieved_docs = Some [], answer = None \<rparr>"

definition llm_paris :: "message list \<Rightarrow> exn + string" where
  \<comment> \<open>a model that answers the judge with a capitalised yes and a line break, and any
      other request with the answer\<close>
  "llm_paris p =
     (if map snd (take 1 p) = [judge_system] then Inr ('' Oui.'' @ NL)
      else Inr ''The capital of France is Paris.'')"

definition env_paris :: env where
  "env_paris =
     \<lparr> retriever_invoke = (\<lambda>q. Inr [doc_paris]),
       llm_invoke = llm_paris,
       agent_cached = False,
       build_agent = None,
       agent_invoke = (\<lambda>q. Inr [q, ''Found on the web.'']) \<rparr>"

definition model_down :: exn where
  "model_down = Exception ''model unreachable''"

definition llm_judge_only :: "message list \<Rightarrow> exn + string" where
  \<comment> \<open>a model that answers the judge and is down afterwards\<close>
  "llm_judge_only p = (if map snd (take 1 p) = [judge_system] then Inr ''oui'' else Inl model_down)"

definition env_judge_down :: env where
  "env_judge_down = env_paris\<lparr>llm_invoke := (\<lambda>p. Inl model_down)\<rparr>"

definition env_generation_down :: env where
  "env_generation_down = env_paris\<lparr>llm_invoke := llm_judge_only\<rparr>"

definition env_agent_down :: env where
  "env_agent_down =
     env_paris\<lparr>retriever_invoke := (\<lambda>q. Inr []), agent_invoke := (\<lambda>q. Inl model_down)\<rparr>"

definition env_retriever_down :: env where
  "env_retriever_down =
     env_paris\<lparr>retriever_invoke := (\<lambda>q. Inl (Exception ''index unavailable''))\<rparr>"

definition env_silent :: env where
  \<comment> \<open>every collaborator is down: whatever is called raises\<close>
  "env_silent =
     \<lparr> retriever_invoke = (\<lambda>q. Inl (Exception ''index unavailable'')),
       llm_invoke = (\<lambda>p. Inl model_down),
       agent_cached = False,
       build_agent = Some model_down,
       agent_invoke = (\<lambda>q. Inl model_down) \<rparr>"

definition dense_table :: "scored list" where
  "dense_table = [(doc_paris, 9 / 10), (doc_lyon, 1 / 2), (doc_nice, 1 / 5)]"

definition sparse_table :: "scored list" where
  "sparse_table = [(doc_lyon, 4 / 5), (doc_paris, 3 / 5), (doc_lille, 1 / 10)]"

definition relevance :: "string \<Rightarrow> document \<Rightarrow> rat" where
  "relevance q d =
     (if d = doc_paris then 5 else if d = doc_lyon then 2 else if d = doc_nice then 3 else 1)"

definition ix_paris :: indices where
  \<comment> \<open>two indices that cannot be built from an empty list, as those of the library, and
      that answer from fixed tables, restricted to the documents indexed\<close>
  "ix_paris =
     \<lparr> faiss_build =
         (\<lambda>docs. if docs = [] then Some (IndexError ''list index out of range'') else None),
       bm25_build =
         (\<lambda>docs. if docs = [] then Some (ZeroDivisionError ''division by zero'') else None),
       similarity_search = (\<lambda>docs k q. Inr (take k (filter (\<lambda>c. fst c \<in> set docs) dense_table))),
       bm25_search = (\<lambda>docs k q. Inr (take k (filter (\<lambda>c. fst c \<in> set docs) sparse_table))),
       cross_encoder = relevance \<rparr>"

definition ix_dense_down :: indices where
  "ix_dense_down =
     ix_paris\<lparr>similarity_search := (\<lambda>docs k q. Inl (Exception ''dense index unavailable''))\<rparr>"

section \<open>Strings: substring search, stripping and lower-casing\<close>

lemma startswith_iff: "startswith s p \<longleftrightarrow> (\<exists>post. s = p @ post)"
  by (induction s p rule: startswith.induct) auto

lemma contains_iff: "contains s sub \<longleftrightarrow> (\<exists>pre post. s = pre @ sub @ post)"
proof (induction s)
  case Nil
  then show ?case by auto
next
  case (Cons c cs)
  show ?case
  proof
    assume "contains (c # cs) sub"
    then consider "startswith (c # cs) sub" | "contains cs sub" by auto
    then show "\<exists>pre post. c # cs = pre @ sub @ post"
    proof cases
      case 1
      then obtain post where "c # cs = sub @ post" by (auto simp: startswith_iff)
      then have "c # cs = [] @ sub @ post" by simp
      then show ?thesis by blast
    next
      case 2
      then obtain pre post where "cs = pre @ sub @ post" using Cons.IH by auto
      then have "c # cs = (c # pre) @ sub @ post" by simp
      then show ?thesis by blast
    qed
  next
    assume "\<exists>pre post. c # cs = pre @ sub @ post"
    then obtain pre post where eq: "c # cs = pre @ sub @ post" by auto
    show "contains (c # cs) sub"
    proof (cases pre)
      case Nil
      then have "startswith (c # cs) sub" using eq by (auto simp: startswith_iff)
      then show ?thesis by simp
    next
      case (Cons p ps)
      then have "cs = ps @ sub @ post" using eq by simp
      then have "contains cs sub" using Cons.IH by blast
      then show ?thesis by simp
    qed
  qed
qed

text \<open>Stripping removes a run of white space at each end and nothing else.\<close>

lemma strip_decomp:
  "\<exists>a b. s = a @ strip s @ b \<and> (\<forall>c\<in>set a. isspace c) \<and> (\<forall>c\<in>set b. isspace c)"
proof -
  let ?t = "dropWhile isspace s"
  have 1: "s = takeWhile isspace s @ ?t" by simp
  have "rev ?t = takeWhile isspace (rev ?t) @ dropWhile isspace (rev ?t)" by simp
  then have 2: "?t = strip s @ rev (takeWhile isspace (rev ?t))"
    unfolding strip_def by (metis rev_append rev_rev_ident)
  have 3: "\<forall>c\<in>set (takeWhile isspace s). isspace c" by (auto dest: set_takeWhileD)
  have 4: "\<forall>c\<in>set (rev (takeWhile isspace (rev ?t))). isspace c" by (auto dest: set_takeWhileD)
  from 1 2 have "s = takeWhile isspace s @ strip s @ rev (takeWhile isspace (rev ?t))" by simp
  with 3 4 show ?thesis by blast
qed

text \<open>An occurrence without white space does not reach into a run of white space.\<close>

lemma peel_front:
  assumes "\<forall>c\<in>set a. isspace c" "\<forall>x\<in>set occ. \<not> isspace x" "occ \<noteq> []"
    and "a @ m = pre @ occ @ post"
  shows "\<exists>pre'. m = pre' @ occ @ post"
  using assms
proof (induction a arbitrary: pre)
  case Nil
  then show ?case by auto
next
  case (Cons c a)
  show ?case
  proof (cases pre)
    case Nil
    with Cons.prems have "hd occ = c" "hd occ \<in> set occ" by (cases occ; auto)+
    with Cons.prems show ?thesis by auto
  next
    case (Cons p ps)
    with Cons.prems have "a @ m = ps @ occ @ post" by simp
    with Cons.IH Cons.prems show ?thesis by auto
  qed
qed

lemma peel_back:
  assumes "\<forall>c\<in>set b. isspace c" "\<forall>x\<in>set occ. \<not> isspace x" "occ \<noteq> []"
    and "m @ b = pre @ occ @ post"
  shows "\<exists>post'. m = pre @ occ @ post'"
proof -
  from assms(4) have "rev b @ rev m = rev post @ rev occ @ rev pre"
    by (metis append.assoc rev_append)
  moreover have "\<forall>c\<in>set (rev b). isspace c" "\<forall>x\<in>set (rev occ). \<not> isspace x" "rev occ \<noteq> []"
    using assms by auto
  ultimately obtain q where "rev m = q @ rev occ @ rev pre"
    using peel_front by blast
  then have "rev (rev m) = rev (q @ rev occ @ rev pre)" by simp
  then have "m = pre @ occ @ rev q" by simp
  then show ?thesis by blast
qed

lemma of_char_lower_char:
  "(of_char (lower_char c) :: nat) =
     (if (65 \<le> (of_char c :: nat) \<and> (of_char c :: nat) \<le> 90)
         \<or> (192 \<le> (of_char c :: nat) \<and> (of_char c :: nat) \<le> 222 \<and> (of_char c :: nat) \<noteq> 215)
      then of_char c + 32 else of_char c)"
  by (auto simp: lower_char_def Let_def)

lemma lower_char_o: "lower_char c = CHR ''o'' \<longleftrightarrow> c = CHR ''o'' \<or> c = CHR ''O''"
proof -
  have "lower_char c = CHR ''o'' \<longleftrightarrow> (of_char (lower_char c) :: nat) = of_char (CHR ''o'')"
    by (simp only: of_char_eq_iff)
  also have "\<dots> \<longleftrightarrow> (of_char c :: nat) = of_char (CHR ''o'') \<or> (of_char c :: nat) = of_char (CHR ''O'')"
    unfolding of_char_lower_char by auto
  also have "\<dots> \<longleftrightarrow> c = CHR ''o'' \<or> c = CHR ''O''"
    by (simp only: of_char_eq_iff)
  finally show ?thesis .
qed

lemma lower_char_u: "lower_char c = CHR ''u'' \<longleftrightarrow> c = CHR ''u'' \<or> c = CHR ''U''"
proof -
  have "lower_char c = CHR ''u'' \<longleftrightarrow> (of_char (lower_char c) :: nat) = of_char (CHR ''u'')"
    by (simp only: of_char_eq_iff)
  also have "\<dots> \<longleftrightarrow> (of_char c :: nat) = of_char (CHR ''u'') \<or> (of_char c :: nat) = of_char (CHR ''U'')"
    unfolding of_char_lower_char by auto
  also have "\<dots> \<longleftrightarrow> c = CHR ''u'' \<or> c = CHR ''U''"
    by (simp only: of_char_eq_iff)
  finally show ?thesis .
qed

lemma lower_char_i: "lower_char c = CHR ''i'' \<longleftrightarrow> c = CHR ''i'' \<or> c = CHR ''I''"
proof -
  have "lower_char c = CHR ''i'' \<longleftrightarrow> (of_char (lower_char c) :: nat) = of_char (CHR ''i'')"
    by (simp only: of_char_eq_iff)
  also have "\<dots> \<longleftrightarrow> (of_char c :: nat) = of_char (CHR ''i'') \<or> (of_char c :: nat) = of_char (CHR ''I'')"
    unfolding of_char_lower_char by auto
  also have "\<dots> \<longleftrightarrow> c = CHR ''i'' \<or> c = CHR ''I''"
    by (simp only: of_char_eq_iff)
  finally show ?thesis .
qed

lemma lower_eq_oui: "lower occ = ''oui'' \<longleftrightarrow> oui_any_case occ"
  by (auto simp: lower_def oui_any_case_def lower_char_o lower_char_u lower_char_i
      split: list.splits)

lemma oui_any_case_no_space:
  assumes "oui_any_case occ"
  shows "occ \<noteq> []" and "\<forall>x\<in>set occ. \<not> isspace x"
  using assms by (auto simp: oui_any_case_def isspace_def split: list.splits)

lemma contains_lower:
  "contains (lower t) ''oui'' \<longleftrightarrow> (\<exists>pre occ post. t = pre @ occ @ post \<and> oui_any_case occ)"
proof
  assume "contains (lower t) ''oui''"
  then obtain pre post where "map lower_char t = pre @ ''oui'' @ post"
    unfolding contains_iff lower_def by blast
  then obtain us vs where t: "t = us @ vs" and "map lower_char vs = ''oui'' @ post"
    by (auto simp: map_eq_append_conv)
  then have "\<exists>occ ws. vs = occ @ ws \<and> ''oui'' = map lower_char occ \<and> post = map lower_char ws"
    by (simp only: map_eq_append_conv)
  then obtain occ ws where vs: "vs = occ @ ws" and "map lower_char occ = ''oui''"
    by metis
  then have "oui_any_case occ" using lower_eq_oui by (simp add: lower_def)
  with t vs show "\<exists>pre occ post. t = pre @ occ @ post \<and> oui_any_case occ" by blast
next
  assume "\<exists>pre occ post. t = pre @ occ @ post \<and> oui_any_case occ"
  then obtain pre occ post where t: "t = pre @ occ @ post" and "oui_any_case occ" by blast
  then have "lower occ = ''oui''" using lower_eq_oui by simp
  then have "lower t = lower pre @ ''oui'' @ lower post" using t by (simp add: lower_def)
  then show "contains (lower t) ''oui''" unfolding contains_iff by blast
qed

lemma contains_lower_strip:
  "contains (lower (strip s)) ''oui'' \<longleftrightarrow>
     (\<exists>pre occ post. s = pre @ occ @ post \<and> oui_any_case occ)"
proof -
  obtain a b where s: "s = a @ strip s @ b" and a: "\<forall>c\<in>set a. isspace c"
    and b: "\<forall>c\<in>set b. isspace c"
    using strip_decomp by blast
  have "contains (lower (strip s)) ''oui'' \<longleftrightarrow>
          (\<exists>pre occ post. strip s = pre @ occ @ post \<and> oui_any_case occ)"
    by (rule contains_lower)
  also have "\<dots> \<longleftrightarrow> (\<exists>pre occ post. s = pre @ occ @ post \<and> oui_any_case occ)"
  proof
    assume "\<exists>pre occ post. strip s = pre @ occ @ post \<and> oui_any_case occ"
    then obtain pre occ post where "strip s = pre @ occ @ post" "oui_any_case occ" by blast
    then have "s = (a @ pre) @ occ @ (post @ b)" using s by (metis append.assoc)
    with \<open>oui_any_case occ\<close> show "\<exists>pre occ post. s = pre @ occ @ post \<and> oui_any_case occ"
      by blast
  next
    assume "\<exists>pre occ post. s = pre @ occ @ post \<and> oui_any_case occ"
    then obtain pre occ post where eq: "s = pre @ occ @ post" and occ: "oui_any_case occ"
      by blast
    from eq s have "a @ (strip s @ b) = pre @ occ @ post" by simp
    then obtain pre' where "strip s @ b = pre' @ occ @ post"
      using peel_front[OF a oui_any_case_no_space(2)[OF occ] oui_any_case_no_space(1)[OF occ]]
      by blast
    then obtain post' where "strip s = pre' @ occ @ post'"
      using peel_back[OF b oui_any_case_no_space(2)[OF occ] oui_any_case_no_space(1)[OF occ]]
      by blast
    with occ show "\<exists>pre occ post. strip s = pre @ occ @ post \<and> oui_any_case occ" by blast
  qed
  finally show ?thesis .
qed

section \<open>One turn through the graph\<close>

lemma retrieve_docs_retrieved:
  "retrieve_docs env st = (Inr (retrieved env st), [RetrieverInvoke (question st)])"
  by (simp add: retrieve_docs_def retrieved_def Let_def split: sum.splits)

lemma question_retrieved: "question (retrieved env st) = question st"
  by (simp add: retrieved_def)

lemma question_initial_state: "question (initial_state saved q) = q"
  by (simp add: initial_state_def split: option.splits)

lemma decide_next_step_cases:
  "(\<exists>e evs. decide_next_step env st = (Inl e, evs))
   \<or> (\<exists>evs. decide_next_step env st = (Inr ''generate_direct'', evs))
   \<or> (\<exists>evs. decide_next_step env st = (Inr ''agent_search'', evs))"
  by (simp add: decide_next_step_def Let_def split: option.splits list.splits sum.splits)

lemma decide_next_step_judged:
  assumes "retrieved_docs st = Some docs" and "docs \<noteq> []"
  shows "decide_next_step env st =
     (let prompt = judge_prompt (question st)
                     (join (NL @ NL @ ''---'' @ NL @ NL) (map page_content docs))
      in case llm_invoke env prompt of
           Inl e \<Rightarrow> (Inl e, [LLMInvoke prompt])
         | Inr content \<Rightarrow>
             (if contains (lower (strip content)) ''oui'' then Inr ''generate_direct''
              else Inr ''agent_search'', [LLMInvoke prompt]))"
proof -
  obtain d ds where "docs = d # ds" using assms(2) by (cases docs) auto
  then show ?thesis using assms(1)
    by (simp add: decide_next_step_def Let_def split: sum.splits)
qed

text \<open>
  The last node of a pass: a node whose edge leads to \<^verbatim>\<open>END\<close> runs, and the execution
  ends with its outcome.
\<close>

lemma last_node:
  "n \<noteq> END \<Longrightarrow> map_of (nodes g) n = Some f \<Longrightarrow> map_of (edges g) n = Some (Edge END) \<Longrightarrow>
   run_graph g env (Suc k) n st = after [Node n] (f env st)"
  by (cases k) (auto simp: after_def split: prod.splits sum.splits)

lemma recursion_limit_Suc: "recursion_limit = Suc (Suc 23)"
  by (simp add: recursion_limit_def)

lemma entry_point_build: "entry_point build = ''retriever''"
  by (simp add: build_def)

lemma invoke_build_fuel: "invoke build env st = run_graph build env (Suc (Suc 23)) ''retriever'' st"
  by (simp only: invoke_def recursion_limit_Suc entry_point_build)

lemma run_retriever_raise:
  assumes "decide_next_step env (retrieved env st) = (Inl e, evs)"
  shows "run_graph build env (Suc k) ''retriever'' st
           = (Inl e, Node ''retriever'' # RetrieverInvoke (question st) # evs)"
  using assms by (simp add: build_def END_def retrieve_docs_retrieved)

lemma run_retriever_direct:
  assumes "decide_next_step env (retrieved env st) = (Inr ''generate_direct'', evs)"
  shows "run_graph build env (Suc (Suc k)) ''retriever'' st =
           after (Node ''retriever'' # RetrieverInvoke (question st) # evs @ [Node ''generate_direct''])
             (generate_direct_answer env (retrieved env st))"
proof -
  have "run_graph build env (Suc k) ''generate_direct'' (retrieved env st)
          = after [Node ''generate_direct''] (generate_direct_answer env (retrieved env st))"
    by (rule last_node) (simp_all add: build_def END_def)
  moreover have "run_graph build env (Suc (Suc k)) ''retriever'' st =
      after (Node ''retriever'' # RetrieverInvoke (question st) # evs)
        (run_graph build env (Suc k) ''generate_direct'' (retrieved env st))"
    using assms by (simp add: build_def END_def retrieve_docs_retrieved del: run_graph.simps(2))
       (simp add: build_def END_def retrieve_docs_retrieved assms)
  ultimately show ?thesis by (simp add: after_def)
qed

lemma run_retriever_agent:
  assumes "decide_next_step env (retrieved env st) = (Inr ''agent_search'', evs)"
  shows "run_graph build env (Suc (Suc k)) ''retriever'' st =
           after (Node ''retriever'' # RetrieverInvoke (question st) # evs @ [Node ''agent_search''])
             (generate_answer env (retrieved env st))"
proof -
  have "run_graph build env (Suc k) ''agent_search'' (retrieved env st)
          = after [Node ''agent_search''] (generate_answer env (retrieved env st))"
    by (rule last_node) (simp_all add: build_def END_def)
  moreover have "run_graph build env (Suc (Suc k)) ''retriever'' st =
      after (Node ''retriever'' # RetrieverInvoke (question st) # evs)
        (run_graph build env (Suc k) ''agent_search'' (retrieved env st))"
    using assms by (simp add: build_def END_def retrieve_docs_retrieved del: run_graph.simps(2))
       (simp add: build_def END_def retrieve_docs_retrieved assms)
  ultimately show ?thesis by (simp add: after_def)
qed

text \<open>The three ways a turn can go, by the outcome of the decision.\<close>

lemma run_raise:
  assumes "decide_next_step env (retrieved env (initial_state saved q)) = (Inl e, evs)"
  shows "run env saved q = (Inl e, Node ''retriever'' # RetrieverInvoke q # evs)"
  unfolding run_def invoke_build_fuel
  by (simp only: run_retriever_raise[OF assms] question_initial_state)

lemma run_direct:
  assumes "decide_next_step env (retrieved env (initial_state saved q)) = (Inr ''generate_direct'', evs)"
  shows "run env saved q =
           after (Node ''retriever'' # RetrieverInvoke q # evs @ [Node ''generate_direct''])
             (generate_direct_answer env (retrieved env (initial_state saved q)))"
  unfolding run_def invoke_build_fuel
  by (simp only: run_retriever_direct[OF assms] question_initial_state)

lemma run_agent:
  assumes "decide_next_step env (retrieved env (initial_state saved q)) = (Inr ''agent_search'', evs)"
  shows "run env saved q =
           after (Node ''retriever'' # RetrieverInvoke q # evs @ [Node ''agent_search''])
             (generate_answer env (retrieved env (initial_state saved q)))"
  unfolding run_def invoke_build_fuel
  by (simp only: run_retriever_agent[OF assms] question_initial_state)

lemma chat_question_q_paris: "chat_question q_paris"
  by (simp add: chat_question_def q_paris_def)

lemma nodes_run_append: "nodes_run (xs @ ys) = nodes_run xs @ nodes_run ys"
  by (induction xs rule: nodes_run.induct) auto

lemma nodes_run_decide: "nodes_run (snd (decide_next_step env st)) = []"
  by (simp add: decide_next_step_def Let_def split: option.splits list.splits sum.splits)

lemma nodes_run_generate_direct_answer: "nodes_run (snd (generate_direct_answer env st)) = []"
  by (simp add: generate_direct_answer_def Let_def split: option.splits sum.splits)

lemma nodes_run_generate_answer: "nodes_run (snd (generate_answer env st)) = []"
  by (simp add: generate_answer_def Let_def split: option.splits)

section \<open>The Sufficiency Gate\<close>

text \<open>
  Claim C2. For every question, when the retrieved document list is empty (or was never
  set), the Sufficiency Gate returns \<^verbatim>\<open>agent_search\<close> whatever the language model would
  answer, and it calls no collaborator: the judge is not invoked.
\<close>

theorem decide_empty_docs_agent_search:
  assumes "retrieved_docs state = None \<or> retrieved_docs state = Some []"
  shows "decide_next_step env state = (Inr ''agent_search'', [])"
  using assms by (auto simp: decide_next_step_def)

theorem decide_empty_docs_agent_search_witness:
  "(retrieved_docs state_empty = None \<or> retrieved_docs state_empty = Some [])
   \<and> decide_next_step env_silent state_empty = (Inr ''agent_search'', [])"
  using decide_empty_docs_agent_search [of state_empty env_silent]
  by (simp add: state_empty_def)

text \<open>
  Claim C3. For every non-empty retrieved document list and every response text of the
  judge, the Sufficiency Gate returns \<^verbatim>\<open>generate_direct\<close> if and only if the text contains an
  occurrence of \<^verbatim>\<open>oui\<close> in any mix of upper and lower case; on every other text it returns
  \<^verbatim>\<open>agent_search\<close>.
\<close>

theorem decide_direct_iff_oui:
  assumes "retrieved_docs state = Some docs" and "docs \<noteq> []"
    and "llm_invoke env (judge_prompt (question state)
           (join (NL @ NL @ ''---'' @ NL @ NL) (map page_content docs))) = Inr content"
  shows "(fst (decide_next_step env state) = Inr ''generate_direct''
            \<longleftrightarrow> (\<exists>pre occ post. content = pre @ occ @ post \<and> oui_any_case occ))
         \<and> (fst (decide_next_step env state) \<noteq> Inr ''generate_direct''
            \<longrightarrow> fst (decide_next_step env state) = Inr ''agent_search'')"
  using assms
  by (simp add: decide_next_step_judged Let_def contains_lower_strip
      del: contains.simps)

theorem decide_direct_iff_oui_witness:
  "retrieved_docs state_paris = Some [doc_paris] \<and> [doc_paris] \<noteq> []
   \<and> llm_invoke env_paris (judge_prompt (question state_paris)
        (join (NL @ NL @ ''---'' @ NL @ NL) (map page_content [doc_paris]))) = Inr ('' Oui.'' @ NL)
   \<and> '' Oui.'' @ NL = '' '' @ ''Oui'' @ (''.'' @ NL) \<and> oui_any_case ''Oui''
   \<and> fst (decide_next_step env_paris state_paris) = Inr ''generate_direct''"
proof -
  have 1: "retrieved_docs state_paris = Some [doc_paris]" by (simp add: state_paris_def)
  have 2: "[doc_paris] \<noteq> []" by simp
  have 3: "llm_invoke env_paris (judge_prompt (question state_paris)
        (join (NL @ NL @ ''---'' @ NL @ NL) (map page_content [doc_paris]))) = Inr ('' Oui.'' @ NL)"
    by (simp add: env_paris_def llm_paris_def judge_prompt_def)
  have 4: "'' Oui.'' @ NL = '' '' @ ''Oui'' @ (''.'' @ NL)" by simp
  have 5: "oui_any_case ''Oui''" by (simp add: oui_any_case_def)
  from 4 5 have "\<exists>pre occ post. '' Oui.'' @ NL = pre @ occ @ post \<and> oui_any_case occ"
    by blast
  with decide_direct_iff_oui [OF 1 2 3]
  have 6: "fst (decide_next_step env_paris state_paris) = Inr ''generate_direct''"
    by (simp only: simp_thms)
  show ?thesis by (rule conjI[OF 1 conjI[OF 2 conjI[OF 3 conjI[OF 4 conjI[OF 5 6]]]]])
qed

text \<open>
  Claim C4, as the code has it. For every question with a non-empty retrieved document
  list, when the call to the judge raises, the Sufficiency Gate returns no route: the
  exception leaves the gate as it is, after the one call to the model. A turn that
  retrieved these documents ends there with the same exception, having run the retrieval
  node only, and for a question that it passes to the run the chat handler shows the
  error box.
\<close>

theorem judge_failure_propagates:
  assumes "retriever_invoke env q = Inr docs" and "docs \<noteq> []"
    and "llm_invoke env (judge_prompt q
           (join (NL @ NL @ ''---'' @ NL @ NL) (map page_content docs))) = Inl e"
  shows "decide_next_step env (retrieved env (initial_state saved q))
           = (Inl e, [LLMInvoke (judge_prompt q
                (join (NL @ NL @ ''---'' @ NL @ NL) (map page_content docs)))])
         \<and> fst (run env saved q) = Inl e
         \<and> nodes_run (snd (run env saved q)) = [''retriever'']
         \<and> (chat_question q \<longrightarrow> chat_turn env saved q = ErrorBox technical_error e)"
proof -
  let ?st = "retrieved env (initial_state saved q)"
  let ?p = "judge_prompt q (join (NL @ NL @ ''---'' @ NL @ NL) (map page_content docs))"
  have docs: "retrieved_docs ?st = Some docs"
    using assms(1) by (simp add: retrieved_def question_initial_state)
  have q: "question ?st = q" by (simp add: question_retrieved question_initial_state)
  have d: "decide_next_step env ?st = (Inl e, [LLMInvoke ?p])"
    using assms(3) by (simp add: decide_next_step_judged[OF docs assms(2)] q Let_def)
  have r: "run env saved q = (Inl e, Node ''retriever'' # RetrieverInvoke q # [LLMInvoke ?p])"
    by (rule run_raise[OF d])
  show ?thesis using d r by (simp add: chat_turn_def chat_question_def)
qed

theorem judge_failure_propagates_witness:
  "retriever_invoke env_judge_down q_paris = Inr [doc_paris] \<and> [doc_paris] \<noteq> []
   \<and> llm_invoke env_judge_down (judge_prompt q_paris
        (join (NL @ NL @ ''---'' @ NL @ NL) (map page_content [doc_paris]))) = Inl model_down
   \<and> fst (run env_judge_down None q_paris) = Inl model_down
   \<and> nodes_run (snd (run env_judge_down None q_paris)) = [''retriever'']
   \<and> chat_question q_paris
   \<and> chat_turn env_judge_down None q_paris = ErrorBox technical_error model_down"
proof -
  have 1: "retriever_invoke env_judge_down q_paris = Inr [doc_paris]"
    by (simp add: env_judge_down_def env_paris_def)
  have 2: "[doc_paris] \<noteq> []" by simp
  have 3: "llm_invoke env_judge_down (judge_prompt q_paris
        (join (NL @ NL @ ''---'' @ NL @ NL) (map page_content [doc_paris]))) = Inl model_down"
    by (simp add: env_judge_down_def env_paris_def)
  show ?thesis
    using 1 2 3 judge_failure_propagates [OF 1 2 3, of None] chat_question_q_paris by blast
qed

theorem judge_failure_not_agent_search:
  "retrieved_docs state_paris = Some [doc_paris]
   \<and> llm_invoke env_judge_down (judge_prompt (question state_paris)
        (join (NL @ NL @ ''---'' @ NL @ NL) (map page_content [doc_paris]))) = Inl model_down
   \<and> fst (decide_next_step env_judge_down state_paris) = Inl model_down
   \<and> fst (decide_next_step env_judge_down state_paris) \<noteq> Inr ''agent_search''"
proof -
  have 1: "retrieved_docs state_paris = Some [doc_paris]" by (simp add: state_paris_def)
  have 3: "llm_invoke env_judge_down (judge_prompt (question state_paris)
        (join (NL @ NL @ ''---'' @ NL @ NL) (map page_content [doc_paris]))) = Inl model_down"
    by (simp add: env_judge_down_def env_paris_def)
  have "fst (decide_next_step env_judge_down state_paris) = Inl model_down"
    using 3 by (simp add: decide_next_step_judged[OF 1] Let_def)
  with 1 3 show ?thesis by simp
qed

section \<open>The two answering nodes\<close>

text \<open>
  Claim C6, as the code has it. When the Sufficiency Gate has chosen the direct answer and
  the model call of the Direct Answer Generator raises, the generator returns no answer
  and the exception leaves it as the model raised it: the sources define no
  \<^verbatim>\<open>AnswerGenerationError\<close> and wrap the exception in no other class. The turn raises this
  same exception to its caller without entering the agent node, and for a question that
  it passes to the run the chat handler shows the error box with that exception instead
  of an answer.
\<close>

theorem direct_answer_failure_propagates:
  assumes "retriever_invoke env q = Inr docs" and "docs \<noteq> []"
    and "llm_invoke env (judge_prompt q
           (join (NL @ NL @ ''---'' @ NL @ NL) (map page_content docs))) = Inr content"
    and "contains (lower (strip content)) ''oui''"
    and "llm_invoke env (direct_prompt (join (NL @ NL) (map page_content docs)) q) = Inl e"
  shows "generate_direct_answer env (retrieved env (initial_state saved q))
           = (Inl e, [LLMInvoke (direct_prompt (join (NL @ NL) (map page_content docs)) q)])
         \<and> fst (run env saved q) = Inl e
         \<and> nodes_run (snd (run env saved q)) = [''retriever'', ''generate_direct'']
         \<and> (chat_question q \<longrightarrow> chat_turn env saved q = ErrorBox technical_error e)"
proof -
  let ?st = "retrieved env (initial_state saved q)"
  let ?p = "judge_prompt q (join (NL @ NL @ ''---'' @ NL @ NL) (map page_content docs))"
  let ?g = "direct_prompt (join (NL @ NL) (map page_content docs)) q"
  have docs: "retrieved_docs ?st = Some docs"
    using assms(1) by (simp add: retrieved_def question_initial_state)
  have q: "question ?st = q" by (simp add: question_retrieved question_initial_state)
  have d: "decide_next_step env ?st = (Inr ''generate_direct'', [LLMInvoke ?p])"
    using assms(3,4)
    by (simp add: decide_next_step_judged[OF docs assms(2)] q Let_def del: contains.simps)
  have g: "generate_direct_answer env ?st = (Inl e, [LLMInvoke ?g])"
    using assms(5) docs by (simp add: generate_direct_answer_def q Let_def)
  have r: "run env saved q =
      after (Node ''retriever'' # RetrieverInvoke q # [LLMInvoke ?p] @ [Node ''generate_direct''])
        (generate_direct_answer env ?st)"
    by (rule run_direct[OF d])
  show ?thesis using g r by (simp add: chat_turn_def chat_question_def after_def)
qed

lemma generation_down_inputs:
  "retriever_invoke env_generation_down q_paris = Inr [doc_paris]"
  "llm_invoke env_generation_down (judge_prompt q_paris
        (join (NL @ NL @ ''---'' @ NL @ NL) (map page_content [doc_paris]))) = Inr ''oui''"
  "contains (lower (strip ''oui'')) ''oui''"
  "llm_invoke env_generation_down
        (direct_prompt (join (NL @ NL) (map page_content [doc_paris])) q_paris) = Inl model_down"
proof -
  show "retriever_invoke env_generation_down q_paris = Inr [doc_paris]"
    by (simp add: env_generation_down_def env_paris_def)
  show "llm_invoke env_generation_down (judge_prompt q_paris
        (join (NL @ NL @ ''---'' @ NL @ NL) (map page_content [doc_paris]))) = Inr ''oui''"
    by (simp add: env_generation_down_def env_paris_def llm_judge_only_def judge_prompt_def)
  show "contains (lower (strip ''oui'')) ''oui''"
    by code_simp
  show "llm_invoke env_generation_down
        (direct_prompt (join (NL @ NL) (map page_content [doc_paris])) q_paris) = Inl model_down"
    by (simp add: env_generation_down_def env_paris_def llm_judge_only_def direct_prompt_def
        judge_system_def)
qed

theorem direct_answer_failure_propagates_witness:
  "retriever_invoke env_generation_down q_paris = Inr [doc_paris] \<and> [doc_paris] \<noteq> []
   \<and> llm_invoke env_generation_down (judge_prompt q_paris
        (join (NL @ NL @ ''---'' @ NL @ NL) (map page_content [doc_paris]))) = Inr ''oui''
   \<and> contains (lower (strip ''oui'')) ''oui''
   \<and> llm_invoke env_generation_down
        (direct_prompt (join (NL @ NL) (map page_content [doc_paris])) q_paris) = Inl model_down
   \<and> fst (run env_generation_down None q_paris) = Inl model_down
   \<and> nodes_run (snd (run env_generation_down None q_paris)) = [''retriever'', ''generate_direct'']
   \<and> chat_question q_paris
   \<and> chat_turn env_generation_down None q_paris = ErrorBox technical_error model_down"
proof -
  note 1 = generation_down_inputs(1) and 3 = generation_down_inputs(2)
    and 4 = generation_down_inputs(3) and 5 = generation_down_inputs(4)
  have 2: "[doc_paris] \<noteq> []" by simp
  from direct_answer_failure_propagates [OF 1 2 3 4 5, of None]
  have c: "fst (run env_generation_down None q_paris) = Inl model_down
     \<and> nodes_run (snd (run env_generation_down None q_paris)) = [''retriever'', ''generate_direct'']
     \<and> (chat_question q_paris
        \<longrightarrow> chat_turn env_generation_down None q_paris = ErrorBox technical_error model_down)"
    by (rule conjunct2)
  then have c': "fst (run env_generation_down None q_paris) = Inl model_down
     \<and> nodes_run (snd (run env_generation_down None q_paris)) = [''retriever'', ''generate_direct'']
     \<and> chat_question q_paris
     \<and> chat_turn env_generation_down None q_paris = ErrorBox technical_error model_down"
    using chat_question_q_paris by (simp only: simp_thms)
  show ?thesis
    by (rule conjI[OF 1 conjI[OF 2 conjI[OF 3 conjI[OF 4 conjI[OF 5 c']]]]])
qed

theorem direct_answer_failure_is_raw_exception:
  "retriever_invoke env_generation_down q_paris = Inr [doc_paris]
   \<and> llm_invoke env_generation_down (judge_prompt q_paris
        (join (NL @ NL @ ''---'' @ NL @ NL) (map page_content [doc_paris]))) = Inr ''oui''
   \<and> llm_invoke env_generation_down
        (direct_prompt (join (NL @ NL) (map page_content [doc_paris])) q_paris)
      = Inl (Exception ''model unreachable'')
   \<and> fst (run env_generation_down None q_paris) = Inl (Exception ''model unreachable'')
   \<and> class_name (Exception ''model unreachable'') = ''Exception''
   \<and> class_name (Exception ''model unreachable'') \<noteq> ''AnswerGenerationError''"
proof -
  let ?st = "retrieved env_generation_down (initial_state None q_paris)"
  let ?p = "judge_prompt q_paris (join (NL @ NL @ ''---'' @ NL @ NL) (map page_content [doc_paris]))"
  let ?g = "direct_prompt (join (NL @ NL) (map page_content [doc_paris])) q_paris"
  note 1 = generation_down_inputs(1) and 3 = generation_down_inputs(2)
    and 4 = generation_down_inputs(3) and 5 = generation_down_inputs(4)
  have docs: "retrieved_docs ?st = Some [doc_paris]"
    using 1 by (simp add: retrieved_def question_initial_state)
  have q: "question ?st = q_paris" by (simp add: question_retrieved question_initial_state)
  have d: "decide_next_step env_generation_down ?st = (Inr ''generate_direct'', [LLMInvoke ?p])"
    using 3 4 by (simp add: decide_next_step_judged[OF docs] q Let_def del: contains.simps)
  have g: "generate_direct_answer env_generation_down ?st = (Inl model_down, [LLMInvoke ?g])"
    using 5 docs by (simp add: generate_direct_answer_def q Let_def)
  have r: "fst (run env_generation_down None q_paris) = Inl model_down"
    by (simp add: run_direct[OF d] after_def g)
  have c1: "class_name (Exception ''model unreachable'') = ''Exception''" by simp
  have c2: "class_name (Exception ''model unreachable'') \<noteq> ''AnswerGenerationError''" by simp
  show ?thesis
    using 1 3 5 r c1 c2 unfolding model_down_def by (intro conjI)
qed

text \<open>
  Claim C7. When the turn is routed to the agent, the agent exists or can be built, and
  the agent's call raises, the agent node returns the state with the answer
  \<^verbatim>\<open>Erreur de l'agent : \<close> followed by the text \<^verbatim>\<open>str(e)\<close> of the exception. The turn returns
  this state, and for a question that it passes to the run the chat handler shows the
  message as the answer.
\<close>

theorem agent_failure_becomes_answer:
  assumes "fst (decide_next_step env (retrieved env (initial_state saved q))) = Inr ''agent_search''"
    and "agent_cached env \<or> build_agent env = None"
    and "agent_invoke env q = Inl e"
  shows "fst (generate_answer env (retrieved env (initial_state saved q)))
           = Inr ((retrieved env (initial_state saved q))
                    \<lparr>answer := Some (''Erreur de l'agent : '' @ str e)\<rparr>)
         \<and> fst (run env saved q)
           = Inr ((retrieved env (initial_state saved q))
                    \<lparr>answer := Some (''Erreur de l'agent : '' @ str e)\<rparr>)
         \<and> (chat_question q
            \<longrightarrow> chat_turn env saved q = Markdown (''Erreur de l'agent : '' @ str e))"
proof -
  let ?st = "retrieved env (initial_state saved q)"
  have q: "question ?st = q" by (simp add: question_retrieved question_initial_state)
  obtain evs where d: "decide_next_step env ?st = (Inr ''agent_search'', evs)"
    using assms(1) by (cases "decide_next_step env ?st") auto
  have g: "fst (generate_answer env ?st)
             = Inr (?st\<lparr>answer := Some (''Erreur de l'agent : '' @ str e)\<rparr>)"
    using assms(2,3)
    by (auto simp: generate_answer_def agent_answer_def q Let_def split: option.splits)
  have r: "run env saved q =
      after (Node ''retriever'' # RetrieverInvoke q # evs @ [Node ''agent_search''])
        (generate_answer env ?st)"
    by (rule run_agent[OF d])
  show ?thesis using g r by (simp add: chat_turn_def chat_question_def after_def)
qed

theorem agent_failure_becomes_answer_witness:
  "fst (decide_next_step env_agent_down (retrieved env_agent_down (initial_state None q_paris)))
     = Inr ''agent_search''
   \<and> (agent_cached env_agent_down \<or> build_agent env_agent_down = None)
   \<and> agent_invoke env_agent_down q_paris = Inl model_down
   \<and> fst (run env_agent_down None q_paris)
       = Inr ((retrieved env_agent_down (initial_state None q_paris))
                \<lparr>answer := Some (''Erreur de l'agent : '' @ str model_down)\<rparr>)
   \<and> chat_question q_paris
   \<and> chat_turn env_agent_down None q_paris
       = Markdown (''Erreur de l'agent : '' @ str model_down)"
proof -
  have 1: "fst (decide_next_step env_agent_down (retrieved env_agent_down (initial_state None q_paris)))
     = Inr ''agent_search''"
    by (simp add: decide_next_step_def retrieved_def env_agent_down_def)
  have 2: "agent_cached env_agent_down \<or> build_agent env_agent_down = None"
    by (simp add: env_agent_down_def env_paris_def)
  have 3: "agent_invoke env_agent_down q_paris = Inl model_down"
    by (simp add: env_agent_down_def)
  from agent_failure_becomes_answer [OF 1 2 3]
  have "fst (run env_agent_down None q_paris)
          = Inr ((retrieved env_agent_down (initial_state None q_paris))
                   \<lparr>answer := Some (''Erreur de l'agent : '' @ str model_down)\<rparr>)
        \<and> (chat_question q_paris
           \<longrightarrow> chat_turn env_agent_down None q_paris
                 = Markdown (''Erreur de l'agent : '' @ str model_down))"
    by (rule conjunct2)
  with 1 2 3 chat_question_q_paris show ?thesis by (simp only: simp_thms)
qed

section \<open>The shape of a turn\<close>

text \<open>
  Claim C9, as the code has it. In every turn the retrieval node runs first and once.
  When the Sufficiency Gate returns a route, the route is \<^verbatim>\<open>generate_direct\<close> or
  \<^verbatim>\<open>agent_search\<close>, exactly the node of that name runs next, once, and the turn ends.
  The outcome of the turn is the outcome of that node. When the call to the judge raises,
  the gate returns no route, the turn ends with that exception and neither answering node
  runs. No node is entered twice.
\<close>

theorem turn_single_pass:
  "nodes_run (snd (run env saved q)) =
     (case fst (decide_next_step env (retrieved env (initial_state saved q))) of
        Inl e \<Rightarrow> [''retriever'']
      | Inr route \<Rightarrow> [''retriever'', route])
   \<and> (case fst (decide_next_step env (retrieved env (initial_state saved q))) of
        Inl e \<Rightarrow> fst (run env saved q) = Inl e
      | Inr route \<Rightarrow>
          (route = ''generate_direct''
             \<and> fst (run env saved q)
                 = fst (generate_direct_answer env (retrieved env (initial_state saved q))))
          \<or> (route = ''agent_search''
             \<and> fst (run env saved q)
                 = fst (generate_answer env (retrieved env (initial_state saved q)))))"
proof -
  let ?st = "retrieved env (initial_state saved q)"
  consider (raise) e evs where "decide_next_step env ?st = (Inl e, evs)"
    | (direct) evs where "decide_next_step env ?st = (Inr ''generate_direct'', evs)"
    | (agent) evs where "decide_next_step env ?st = (Inr ''agent_search'', evs)"
    using decide_next_step_cases[of env ?st] by blast
  then show ?thesis
  proof cases
    case raise
    have "nodes_run evs = []" using nodes_run_decide[of env ?st] raise by simp
    then show ?thesis using raise by (simp add: run_raise[OF raise])
  next
    case direct
    have "nodes_run evs = []" using nodes_run_decide[of env ?st] direct by simp
    then show ?thesis using direct
      by (simp add: run_direct[OF direct] after_def nodes_run_append
          nodes_run_generate_direct_answer)
  next
    case agent
    have "nodes_run evs = []" using nodes_run_decide[of env ?st] agent by simp
    then show ?thesis using agent
      by (simp add: run_agent[OF agent] after_def nodes_run_append nodes_run_generate_answer)
  qed
qed

theorem judge_failure_runs_no_answering_node:
  "retriever_invoke env_judge_down q_paris = Inr [doc_paris]
   \<and> nodes_run (snd (run env_judge_down None q_paris)) = [''retriever'']
   \<and> ''generate_direct'' \<notin> set (nodes_run (snd (run env_judge_down None q_paris)))
   \<and> ''agent_search'' \<notin> set (nodes_run (snd (run env_judge_down None q_paris)))"
proof -
  let ?st = "retrieved env_judge_down (initial_state None q_paris)"
  have docs: "retrieved_docs ?st = Some [doc_paris]"
    by (simp add: retrieved_def env_judge_down_def env_paris_def)
  have "llm_invoke env_judge_down p = Inl model_down" for p
    by (simp add: env_judge_down_def)
  then have "\<exists>evs. decide_next_step env_judge_down ?st = (Inl model_down, evs)"
    by (simp add: decide_next_step_judged[OF docs] Let_def)
  then obtain evs where d: "decide_next_step env_judge_down ?st = (Inl model_down, evs)"
    by blast
  have "nodes_run evs = []" using nodes_run_decide[of env_judge_down ?st] d by simp
  then have "nodes_run (snd (run env_judge_down None q_paris)) = [''retriever'']"
    by (simp add: run_raise[OF d])
  then show ?thesis by (simp add: env_judge_down_def env_paris_def)
qed

section \<open>A failing retriever\<close>

text \<open>
  Claim C10. For every question, when the retriever raises inside the retrieval node, the
  node returns the state with an empty document list and raises nothing. The Sufficiency
  Gate then returns \<^verbatim>\<open>agent_search\<close> without calling the judge, the turn runs the agent node
  and never the direct answer, and the whole turn is the turn of a retriever that returned
  the empty list.
\<close>

theorem retriever_failure_is_empty_retrieval:
  assumes "retriever_invoke env q = Inl e"
  shows "retrieve_docs env (initial_state saved q)
           = (Inr ((initial_state saved q)\<lparr>retrieved_docs := Some []\<rparr>), [RetrieverInvoke q])
         \<and> decide_next_step env ((initial_state saved q)\<lparr>retrieved_docs := Some []\<rparr>)
           = (Inr ''agent_search'', [])
         \<and> nodes_run (snd (run env saved q)) = [''retriever'', ''agent_search'']
         \<and> llm_calls (snd (run env saved q)) = []
         \<and> run env saved q = run (env\<lparr>retriever_invoke := (\<lambda>q. Inr [])\<rparr>) saved q"
proof -
  let ?env' = "env\<lparr>retriever_invoke := (\<lambda>q. Inr [])\<rparr>"
  let ?st = "(initial_state saved q)\<lparr>retrieved_docs := Some []\<rparr>"
  have st: "retrieved env (initial_state saved q) = ?st"
    using assms by (simp add: retrieved_def question_initial_state)
  have st': "retrieved ?env' (initial_state saved q) = ?st"
    by (simp add: retrieved_def)
  have d: "decide_next_step env ?st = (Inr ''agent_search'', [])"
    by (simp add: decide_next_step_def)
  have d': "decide_next_step ?env' ?st = (Inr ''agent_search'', [])"
    by (simp add: decide_next_step_def)
  have g: "generate_answer ?env' ?st = generate_answer env ?st"
    by (simp add: generate_answer_def Let_def)
  have r: "run env saved q =
      after (Node ''retriever'' # RetrieverInvoke q # [] @ [Node ''agent_search''])
        (generate_answer env ?st)"
    using run_agent[of env saved q "[]"] d st by simp
  have r': "run ?env' saved q =
      after (Node ''retriever'' # RetrieverInvoke q # [] @ [Node ''agent_search''])
        (generate_answer ?env' ?st)"
    using run_agent[of ?env' saved q "[]"] d' st' by simp
  have l: "llm_calls (snd (generate_answer env ?st)) = []"
    by (simp add: generate_answer_def Let_def split: option.splits)
  have 1: "retrieve_docs env (initial_state saved q) = (Inr ?st, [RetrieverInvoke q])"
    by (simp add: retrieve_docs_retrieved st question_initial_state)
  have 3: "nodes_run (snd (run env saved q)) = [''retriever'', ''agent_search'']"
    by (simp add: r after_def nodes_run_generate_answer)
  have 4: "llm_calls (snd (run env saved q)) = []"
    by (simp add: r after_def l)
  have 5: "run env saved q = run ?env' saved q"
    by (simp only: r r' g)
  show ?thesis using 1 d 3 4 5 by blast
qed

theorem retriever_failure_is_empty_retrieval_witness:
  "retriever_invoke env_retriever_down q_paris = Inl (Exception ''index unavailable'')
   \<and> nodes_run (snd (run env_retriever_down None q_paris)) = [''retriever'', ''agent_search'']
   \<and> llm_calls (snd (run env_retriever_down None q_paris)) = []
   \<and> run env_retriever_down None q_paris
     = run (env_retriever_down\<lparr>retriever_invoke := (\<lambda>q. Inr [])\<rparr>) None q_paris"
proof -
  have 1: "retriever_invoke env_retriever_down q_paris = Inl (Exception ''index unavailable'')"
    by (simp add: env_retriever_down_def)
  show ?thesis using 1 retriever_failure_is_empty_retrieval [OF 1, of None] by blast
qed

section \<open>Fusion and reranking\<close>

lemma set_unique: "set (unique seen xs) = set xs - set seen"
  by (induction xs arbitrary: seen) auto

lemma distinct_unique: "distinct (unique seen xs)"
  by (induction xs arbitrary: seen) (auto simp: set_unique)

lemma fused_score_commute: "fused_score w w xs ys d = fused_score w w ys xs d"
  by (simp add: fused_score_def add.commute split: option.splits)

lemma set_fusion:
  "set (fusion w1 w2 xs ys) =
     (\<lambda>d. (d, fused_score w1 w2 xs ys d)) ` (fst ` set xs \<union> fst ` set ys)"
  by (simp add: fusion_def set_unique)

lemma distinct_map_insort_key:
  "distinct (map g (insort_key f x xs)) \<longleftrightarrow> g x \<notin> g ` set xs \<and> distinct (map g xs)"
  by (induction xs) (auto simp: set_insort_key)

lemma distinct_map_sort_key: "distinct (map g (sort_key f xs)) \<longleftrightarrow> distinct (map g xs)"
  by (induction xs) (auto simp: sort_key_simps distinct_map_insort_key)

lemma distinct_fusion: "distinct (map fst (fusion w1 w2 xs ys))"
  by (simp add: fusion_def distinct_map_sort_key comp_def distinct_unique)

lemma length_rerank: "length (rerank score top_n q cands) \<le> top_n"
  by (simp add: rerank_def)

lemma sorted_rerank:
  "sorted_wrt (\<lambda>a b. score q b \<le> score q a) (rerank score top_n q cands)"
proof -
  have "sorted (map (\<lambda>d. - score q d) (sort_key (\<lambda>d. - score q d) cands))"
    by (rule sorted_sort_key)
  then have "sorted_wrt (\<lambda>a b. score q b \<le> score q a) (sort_key (\<lambda>d. - score q d) cands)"
    by (simp add: sorted_map)
  then show ?thesis unfolding rerank_def by (rule sorted_wrt_take)
qed

lemma create_vectorstore_built:
  assumes "create_vectorstore ix self documents = Inr vs"
  shows "faiss_build ix documents = None" and "bm25_build ix documents = None"
    and "retrieve vs q =
     (case bm25_search ix documents 10 q of
        Inl e \<Rightarrow> Inl e
      | Inr xs \<Rightarrow>
          (case similarity_search ix documents 10 q of
             Inl e \<Rightarrow> Inl e
           | Inr ys \<Rightarrow>
               Inr (rerank (cross_encoder ix) 3 q (map fst (fusion (1 / 2) (1 / 2) xs ys)))))"
  using assms
  by (auto simp: retrieve_def create_vectorstore_def Let_def compression_retriever_def
      ensemble_retriever_def split: sum.splits option.splits)

lemma create_vectorstore_ok:
  assumes "faiss_build ix documents = None" and "bm25_build ix documents = None"
  shows "create_vectorstore ix self documents = Inr (store_after ix self documents)"
  using assms by (simp add: store_after_def create_vectorstore_def Let_def)

lemma create_vectorstore_raises:
  assumes "faiss_build ix documents = Some e
           \<or> (faiss_build ix documents = None \<and> bm25_build ix documents = Some e)"
  shows "create_vectorstore ix self documents = Inl e"
    and "store_after ix self documents = self"
  using assms by (auto simp: store_after_def create_vectorstore_def)

lemma str_KeyError_messages: "str (KeyError ''messages'') = [CHR 0x27] @ ''messages'' @ [CHR 0x27]"
  by (simp add: repr_def repr_char_def isprintable_def Let_def)

lemma fusion_tables:
  "fusion (1 / 2) (1 / 2) sparse_table dense_table =
     [(doc_paris, 3 / 4), (doc_lyon, 13 / 20), (doc_nice, 1 / 10), (doc_lille, 1 / 20)]"
  by (simp add: fusion_def fused_score_def sparse_table_def dense_table_def
      doc_paris_def doc_lyon_def doc_nice_def doc_lille_def)

section \<open>The contract of the hybrid retriever\<close>

text \<open>
  Claim C8. For every dense candidate list \<open>D\<close> and sparse candidate list \<open>S\<close>, fusing
  \<open>(D, S)\<close> and fusing \<open>(S, D)\<close> with the weights 0.5 and 0.5 give the same set of
  candidates with the same fused scores; each candidate occurs once in either result.
\<close>

theorem fusion_commutes:
  "set (fusion (1 / 2) (1 / 2) D S) = set (fusion (1 / 2) (1 / 2) S D)
   \<and> distinct (map fst (fusion (1 / 2) (1 / 2) D S))
   \<and> distinct (map fst (fusion (1 / 2) (1 / 2) S D))"
proof -
  have "(\<lambda>d. (d, fused_score (1 / 2) (1 / 2) D S d)) = (\<lambda>d. (d, fused_score (1 / 2) (1 / 2) S D d))"
    by (simp add: fused_score_commute[of "1 / 2" D S])
  then have "set (fusion (1 / 2) (1 / 2) D S) = set (fusion (1 / 2) (1 / 2) S D)"
    by (simp only: set_fusion Un_commute)
  then show ?thesis by (simp only: distinct_fusion simp_thms)
qed

theorem fusion_commutes_witness:
  "set (fusion (1 / 2) (1 / 2) dense_table sparse_table)
     = set (fusion (1 / 2) (1 / 2) sparse_table dense_table)
   \<and> fusion (1 / 2) (1 / 2) sparse_table dense_table =
       [(doc_paris, 3 / 4), (doc_lyon, 13 / 20), (doc_nice, 1 / 10), (doc_lille, 1 / 20)]"
  using fusion_commutes [of dense_table sparse_table] fusion_tables by (simp only: simp_thms)

text \<open>
  Claim C1, as the code has it. For every query against a store that \<^verbatim>\<open>create_vectorstore\<close>
  has built and whose two index lookups answer, \<^verbatim>\<open>retrieve\<close> returns a list of at most 3
  documents in the order of non-increasing reranker score. There is no result for an
  empty corpus: \<^verbatim>\<open>create_vectorstore\<close> raises whenever building one of the two indices
  raises, as the library does on an empty document list, the store is then left without a
  retriever, and \<^verbatim>\<open>retrieve\<close> on a store without a retriever raises \<^verbatim>\<open>ValueError\<close>.
\<close>

theorem retrieve_contract:
  assumes "create_vectorstore ix self docs = Inr vs"
    and "similarity_search ix docs 10 q = Inr D" and "bm25_search ix docs 10 q = Inr S"
  shows "(\<exists>ds. retrieve vs q = Inr ds
            \<and> length ds \<le> 3
            \<and> sorted_wrt (\<lambda>a b. cross_encoder ix q b \<le> cross_encoder ix q a) ds)
         \<and> (faiss_build ix docs' = Some e
               \<or> (faiss_build ix docs' = None \<and> bm25_build ix docs' = Some e)
             \<longrightarrow> create_vectorstore ix VectorStore_init docs' = Inl e
                 \<and> retrieve (store_after ix VectorStore_init docs') q = Inl not_initialized)"
proof -
  let ?ds = "rerank (cross_encoder ix) 3 q (map fst (fusion (1 / 2) (1 / 2) S D))"
  have r: "retrieve vs q = Inr ?ds"
    using assms(2,3) by (simp add: create_vectorstore_built(3)[OF assms(1)])
  from r length_rerank[of "cross_encoder ix" 3 q] sorted_rerank[of "cross_encoder ix" q 3]
  have 1: "\<exists>ds. retrieve vs q = Inr ds \<and> length ds \<le> 3
            \<and> sorted_wrt (\<lambda>a b. cross_encoder ix q b \<le> cross_encoder ix q a) ds"
    by blast
  have 2: "create_vectorstore ix VectorStore_init docs' = Inl e
           \<and> retrieve (store_after ix VectorStore_init docs') q = Inl not_initialized"
    if "faiss_build ix docs' = Some e
        \<or> (faiss_build ix docs' = None \<and> bm25_build ix docs' = Some e)"
    using create_vectorstore_raises[OF that, of VectorStore_init]
    by (simp add: retrieve_def VectorStore_init_def)
  from 1 2 show ?thesis by blast
qed

lemma paris_store:
  "create_vectorstore ix_paris VectorStore_init corpus
     = Inr (store_after ix_paris VectorStore_init corpus)"
  "similarity_search ix_paris corpus 10 q_paris = Inr dense_table"
  "bm25_search ix_paris corpus 10 q_paris = Inr sparse_table"
proof -
  show "create_vectorstore ix_paris VectorStore_init corpus
     = Inr (store_after ix_paris VectorStore_init corpus)"
    by (rule create_vectorstore_ok) (simp_all add: ix_paris_def corpus_def)
  show "similarity_search ix_paris corpus 10 q_paris = Inr dense_table"
    by (simp add: ix_paris_def corpus_def dense_table_def)
  show "bm25_search ix_paris corpus 10 q_paris = Inr sparse_table"
    by (simp add: ix_paris_def corpus_def sparse_table_def)
qed

theorem retrieve_contract_witness:
  "create_vectorstore ix_paris VectorStore_init corpus
     = Inr (store_after ix_paris VectorStore_init corpus)
   \<and> similarity_search ix_paris corpus 10 q_paris = Inr dense_table
   \<and> bm25_search ix_paris corpus 10 q_paris = Inr sparse_table
   \<and> retrieve (store_after ix_paris VectorStore_init corpus) q_paris
       = Inr [doc_paris, doc_nice, doc_lyon]
   \<and> length [doc_paris, doc_nice, doc_lyon] \<le> 3
   \<and> faiss_build ix_paris [] = Some (IndexError ''list index out of range'')
   \<and> create_vectorstore ix_paris VectorStore_init [] = Inl (IndexError ''list index out of range'')
   \<and> retrieve (store_after ix_paris VectorStore_init []) q_paris = Inl not_initialized"
proof -
  note 1 = paris_store(1) and 2 = paris_store(2) and 3 = paris_store(3)
  have 4: "retrieve (store_after ix_paris VectorStore_init corpus) q_paris
             = Inr [doc_paris, doc_nice, doc_lyon]"
    by (simp add: create_vectorstore_built(3)[OF 1] 2 3 fusion_tables)
       (simp add: rerank_def ix_paris_def relevance_def
          doc_paris_def doc_lyon_def doc_nice_def doc_lille_def)
  have 6: "faiss_build ix_paris [] = Some (IndexError ''list index out of range'')"
    by (simp add: ix_paris_def)
  note t = retrieve_contract [OF 1 2 3, of "[]" "IndexError ''list index out of range''"]
  from t 4 have 5: "length [doc_paris, doc_nice, doc_lyon] \<le> 3"
    by auto
  from t 6 have 7: "create_vectorstore ix_paris VectorStore_init [] = Inl (IndexError ''list index out of range'')
      \<and> retrieve (store_after ix_paris VectorStore_init []) q_paris = Inl not_initialized"
    by blast
  show ?thesis
    by (rule conjI[OF 1 conjI[OF 2 conjI[OF 3 conjI[OF 4 conjI[OF 5 conjI[OF 6 7]]]]]])
qed

theorem empty_corpus_no_empty_result:
  "faiss_build ix_paris [] = Some (IndexError ''list index out of range'')
   \<and> create_vectorstore ix_paris VectorStore_init [] = Inl (IndexError ''list index out of range'')
   \<and> store_after ix_paris VectorStore_init [] = VectorStore_init
   \<and> retrieve (store_after ix_paris VectorStore_init []) q_paris
       = Inl (ValueError ''Vector store not initialized. Call create_vectorstore first.'')
   \<and> retrieve (store_after ix_paris VectorStore_init []) q_paris \<noteq> Inr []"
proof -
  have 1: "faiss_build ix_paris [] = Some (IndexError ''list index out of range'')"
    by (simp add: ix_paris_def)
  then have h: "faiss_build ix_paris [] = Some (IndexError ''list index out of range'')
      \<or> (faiss_build ix_paris [] = None
         \<and> bm25_build ix_paris [] = Some (IndexError ''list index out of range''))"
    by (rule disjI1)
  note 2 = create_vectorstore_raises(1)[OF h, of VectorStore_init]
  note 3 = create_vectorstore_raises(2)[OF h, of VectorStore_init]
  have 4: "retrieve (store_after ix_paris VectorStore_init []) q_paris
       = Inl (ValueError ''Vector store not initialized. Call create_vectorstore first.'')"
    unfolding 3 by (simp add: retrieve_def VectorStore_init_def not_initialized_def)
  then have 5: "retrieve (store_after ix_paris VectorStore_init []) q_paris \<noteq> Inr []"
    by simp
  show ?thesis by (rule conjI[OF 1 conjI[OF 2 conjI[OF 3 conjI[OF 4 5]]]])
qed

text \<open>
  Claim C5, as the code has it. For every query against a built store, when exactly one of
  the two indices raises, \<^verbatim>\<open>retrieve\<close> raises the same exception and computes nothing from
  the other index; the retrieval node of the system built on this store catches the
  exception and returns the empty document list.
\<close>

theorem one_index_down_no_results:
  assumes "create_vectorstore ix self docs = Inr vs"
    and "(bm25_search ix docs 10 (question st) = Inl e
              \<and> similarity_search ix docs 10 (question st) = Inr D)
           \<or> (bm25_search ix docs 10 (question st) = Inr S
              \<and> similarity_search ix docs 10 (question st) = Inl e)"
  shows "retrieve vs (question st) = Inl e
         \<and> fst (retrieve_docs (rag_env vs env) st) = Inr (st\<lparr>retrieved_docs := Some []\<rparr>)"
proof -
  have r: "retrieve vs (question st) = Inl e"
    using assms(2) by (auto simp: create_vectorstore_built(3)[OF assms(1)])
  then have "fst (retrieve_docs (rag_env vs env) st) = Inr (st\<lparr>retrieved_docs := Some []\<rparr>)"
    by (simp add: retrieve_docs_def rag_env_def Let_def)
  with r show ?thesis by simp
qed

lemma dense_down_store:
  "create_vectorstore ix_dense_down VectorStore_init corpus
     = Inr (store_after ix_dense_down VectorStore_init corpus)"
  "bm25_search ix_dense_down corpus 10 q_paris = Inr sparse_table"
  "similarity_search ix_dense_down corpus 10 q_paris = Inl (Exception ''dense index unavailable'')"
  "question state_paris = q_paris"
proof -
  show "create_vectorstore ix_dense_down VectorStore_init corpus
     = Inr (store_after ix_dense_down VectorStore_init corpus)"
    by (rule create_vectorstore_ok) (simp_all add: ix_dense_down_def ix_paris_def corpus_def)
  show "bm25_search ix_dense_down corpus 10 q_paris = Inr sparse_table"
    by (simp add: ix_dense_down_def ix_paris_def corpus_def sparse_table_def)
  show "similarity_search ix_dense_down corpus 10 q_paris
          = Inl (Exception ''dense index unavailable'')"
    by (simp add: ix_dense_down_def)
  show "question state_paris = q_paris" by (simp add: state_paris_def)
qed

theorem one_index_down_no_results_witness:
  "create_vectorstore ix_dense_down VectorStore_init corpus
     = Inr (store_after ix_dense_down VectorStore_init corpus)
   \<and> ((bm25_search ix_dense_down corpus 10 (question state_paris) = Inl (Exception ''dense index unavailable'')
       \<and> similarity_search ix_dense_down corpus 10 (question state_paris) = Inr [])
    \<or> (bm25_search ix_dense_down corpus 10 (question state_paris) = Inr sparse_table
       \<and> similarity_search ix_dense_down corpus 10 (question state_paris)
           = Inl (Exception ''dense index unavailable'')))
   \<and> retrieve (store_after ix_dense_down VectorStore_init corpus) (question state_paris)
       = Inl (Exception ''dense index unavailable'')
   \<and> fst (retrieve_docs (rag_env (store_after ix_dense_down VectorStore_init corpus) env_paris)
           state_paris)
       = Inr (state_paris\<lparr>retrieved_docs := Some []\<rparr>)"
proof -
  note 0 = dense_down_store(1)
  have 1: "bm25_search ix_dense_down corpus 10 (question state_paris) = Inr sparse_table"
    by (simp only: dense_down_store)
  have 2: "similarity_search ix_dense_down corpus 10 (question state_paris)
             = Inl (Exception ''dense index unavailable'')"
    by (simp only: dense_down_store)
  from 1 2 have h: "(bm25_search ix_dense_down corpus 10 (question state_paris) = Inl (Exception ''dense index unavailable'')
       \<and> similarity_search ix_dense_down corpus 10 (question state_paris) = Inr [])
    \<or> (bm25_search ix_dense_down corpus 10 (question state_paris) = Inr sparse_table
       \<and> similarity_search ix_dense_down corpus 10 (question state_paris)
           = Inl (Exception ''dense index unavailable''))"
    by (rule disjI2[OF conjI])
  show ?thesis
    by (rule conjI[OF 0 conjI[OF h one_index_down_no_results [OF 0 h, of env_paris]]])
qed

theorem dense_index_down_empty_result:
  "create_vectorstore ix_dense_down VectorStore_init corpus
     = Inr (store_after ix_dense_down VectorStore_init corpus)
   \<and> bm25_search ix_dense_down corpus 10 q_paris = Inr sparse_table
   \<and> sparse_table \<noteq> []
   \<and> similarity_search ix_dense_down corpus 10 q_paris = Inl (Exception ''dense index unavailable'')
   \<and> retrieve (store_after ix_dense_down VectorStore_init corpus) q_paris
       = Inl (Exception ''dense index unavailable'')
   \<and> fst (retrieve_docs (rag_env (store_after ix_dense_down VectorStore_init corpus) env_paris)
           state_paris)
       = Inr (state_paris\<lparr>retrieved_docs := Some []\<rparr>)"
proof -
  note 0 = dense_down_store(1) and 1 = dense_down_store(2) and 2 = dense_down_store(3)
    and q = dense_down_store(4)
  have 3: "sparse_table \<noteq> []" by (simp add: sparse_table_def)
  have 4: "retrieve (store_after ix_dense_down VectorStore_init corpus) q_paris
       = Inl (Exception ''dense index unavailable'')"
    by (simp add: create_vectorstore_built(3)[OF 0] 1 2)
  have 5: "fst (retrieve_docs (rag_env (store_after ix_dense_down VectorStore_init corpus) env_paris)
              state_paris)
       = Inr (state_paris\<lparr>retrieved_docs := Some []\<rparr>)"
    using 4 by (simp add: retrieve_docs_def rag_env_def Let_def q)
  show ?thesis by (rule conjI[OF 0 conjI[OF 1 conjI[OF 3 conjI[OF 2 conjI[OF 4 5]]]]])
qed

end
